theory Spec2Isabelle
  imports Complex_Main "HOL-Library.Sublist"
begin

section \<open>The benchmark log plotter (benchmark\_plot.py)\<close>

text \<open>
  The script reads a benchmark log, groups the runtime lines under the header line
  that precedes them, aggregates each group and fills a 9 by 9 grid. This theory embeds
  the three regular expressions of the script, the functions built on them
  (\<open>match_block_thread_size\<close>, \<open>match_runtime\<close>, \<open>extract_cpu_prefix\<close>), the
  loop of \<open>parse_file\<close> and the grid loop of the main block.

  Conventions of the embedding:
  \<^item> a Python \<open>str\<close> is a \<open>string\<close>, a list of 8-bit characters (code points below
    256); on these the classes \<open>\d\<close> and \<open>[0-9]\<close> of the patterns coincide;
  \<^item> a Python \<open>int\<close> is an \<open>int\<close>;
  \<^item> a Python \<open>float\<close> is the rational number it stands for (\<open>rat\<close>): rounding,
    overflow and the special values of IEEE arithmetic are not part of the model;
  \<^item> an exception is a value \<open>Inl e\<close> of the sum type \<open>error + 'a\<close>;
  \<^item> \<open>scipy.stats.gmean\<close> is library code outside the script; it is a parameter
    (\<open>gm\<close>) of the functions that call it.
\<close>

subsection \<open>Exceptions\<close>

datatype error =
    ZeroDivisionError
  | InvalidLiteral string      \<comment> \<open>ValueError of \<open>int\<close> and \<open>float\<close>\<close>
  | TooManyDigits nat          \<comment> \<open>ValueError of \<open>int\<close>: "Exceeds the limit (4300 digits) ..."\<close>
  | InvalidLogFile string      \<comment> \<open>ValueError of \<open>extract_cpu_prefix\<close>: "Invalid log file ..."\<close>
  | NotInList int              \<comment> \<open>ValueError of \<open>list.index\<close>: "v is not in list"\<close>
  | TypeError
  | IndexError

subsection \<open>Regular expressions with backtracking\<close>

text \<open>
  The fragment of Python's \<open>re\<close> syntax that the three patterns use. Every repeated
  item of the patterns is a single character class, so \<open>Star\<close> and \<open>Plus\<close> take a
  class. Both are greedy.
\<close>

datatype cls =
    Dot              \<comment> \<open>\<open>.\<close>: any character except newline\<close>
  | Digit            \<comment> \<open>\<open>\d\<close> and \<open>[0-9]\<close>\<close>
  | Lit char         \<comment> \<open>a literal character\<close>

datatype regex =
    Bol                  \<comment> \<open>\<open>^\<close>\<close>
  | Eol                  \<comment> \<open>\<open>$\<close>\<close>
  | Str string           \<comment> \<open>a run of literal characters\<close>
  | Star cls             \<comment> \<open>\<open>c*\<close>\<close>
  | Plus cls             \<comment> \<open>\<open>c+\<close>\<close>
  | Opt regex            \<comment> \<open>\<open>(?:r)?\<close>\<close>
  | Seq regex regex      \<comment> \<open>\<open>r1 r2\<close>\<close>
  | Group nat regex      \<comment> \<open>\<open>(r)\<close>, the capturing group with the given number\<close>

definition newline :: char where
  "newline = CHR 0x0A"

definition is_digit :: "char \<Rightarrow> bool" where
  "is_digit x = (x \<in> set ''0123456789'')"

fun cmatch :: "cls \<Rightarrow> char \<Rightarrow> bool" where
  "cmatch Dot x = (x \<noteq> newline)"
| "cmatch Digit x = is_digit x"
| "cmatch (Lit a) x = (x = a)"

text \<open>
  A matcher state: the number of characters consumed so far, the rest of the subject
  string, and the text of the groups closed so far.
\<close>

type_synonym caps = "nat \<Rightarrow> string option"
type_synonym mstate = "nat \<times> string \<times> caps"

text \<open>
  \<open>star a st\<close> lists the states after zero or more characters of class \<open>a\<close>, the
  longest run first: the order in which a backtracking matcher tries them.
\<close>

fun star :: "cls \<Rightarrow> mstate \<Rightarrow> mstate list" where
  "star a (n, [], c) = [(n, [], c)]"
| "star a (n, x # xs, c) =
     (if cmatch a x then star a (Suc n, xs, c) else []) @ [(n, x # xs, c)]"

fun plus :: "cls \<Rightarrow> mstate \<Rightarrow> mstate list" where
  "plus a (n, [], c) = []"
| "plus a (n, x # xs, c) = (if cmatch a x then star a (Suc n, xs, c) else [])"

text \<open>
  \<open>paths r st\<close> lists every way in which \<open>r\<close> matches at \<open>st\<close>, in the order of
  preference of the backtracking matcher. \<open>^\<close> holds at position 0 only (no MULTILINE
  flag); \<open>$\<close> holds at the end of the string and before a newline that ends it.
\<close>

fun paths :: "regex \<Rightarrow> mstate \<Rightarrow> mstate list" where
  "paths Bol (n, s, c) = (if n = 0 then [(n, s, c)] else [])"
| "paths Eol (n, s, c) = (if s = [] \<or> s = [newline] then [(n, s, c)] else [])"
| "paths (Str w) (n, s, c) =
     (if take (length w) s = w then [(n + length w, drop (length w) s, c)] else [])"
| "paths (Star a) st = star a st"
| "paths (Plus a) st = plus a st"
| "paths (Opt r) st = paths r st @ [st]"
| "paths (Seq r1 r2) st = concat (map (paths r2) (paths r1 st))"
| "paths (Group k r) (n, s, c) =
     map (\<lambda>(n', s', c'). (n', s', c'(k \<mapsto> take (n' - n) s))) (paths r (n, s, c))"

fun cat :: "regex list \<Rightarrow> regex" where
  "cat [] = Str []"
| "cat [r] = r"
| "cat (r # rs) = Seq r (cat rs)"

text \<open>\<open>re.match(pattern, line)\<close>: the groups of the first match from position 0, or None.\<close>

definition re_match :: "regex \<Rightarrow> string \<Rightarrow> caps option" where
  "re_match r line =
     (case paths r (0, line, Map.empty) of [] \<Rightarrow> None | (n, s, c) # _ \<Rightarrow> Some c)"

subsection \<open>Conversions\<close>

text \<open>
  \<open>int(s)\<close> and \<open>float(s)\<close> are modelled on the strings that the groups of the
  patterns can hold: a run of digits, and for \<open>float\<close> an optional fraction. On any
  other string the model reports a ValueError (Python accepts a few more, such as a sign
  or white space around the digits; the groups \<open>[0-9]+\<close> and \<open>\d+(?:\.\d+)?\<close>
  hold none of them). \<open>int\<close> raises a ValueError on a string of more digits than
  the limit of the interpreter, which is 4300 unless the program changes it; the script
  does not change it. \<open>float\<close> has no such limit.
\<close>

definition int_max_str_digits :: nat where
  "int_max_str_digits = 4300"

definition digit_val :: "char \<Rightarrow> nat" where
  "digit_val x = of_char x - 48"

definition dec :: "string \<Rightarrow> nat" where
  "dec ds = foldl (\<lambda>v x. 10 * v + digit_val x) 0 ds"

definition py_int :: "string \<Rightarrow> error + int" where
  "py_int s =
     (if s \<noteq> [] \<and> list_all is_digit s
      then (if int_max_str_digits < length s then Inl (TooManyDigits (length s))
            else Inr (int (dec s)))
      else Inl (InvalidLiteral s))"

text \<open>A float literal of the patterns: digits, and optionally a point and digits.\<close>

definition float_lit :: "string \<Rightarrow> bool" where
  "float_lit s =
     (let ip = takeWhile is_digit s; r = dropWhile is_digit s in
      ip \<noteq> [] \<and> (r = [] \<or> (hd r = CHR ''.'' \<and> tl r \<noteq> [] \<and> list_all is_digit (tl r))))"

definition lit_val :: "string \<Rightarrow> rat" where
  "lit_val s =
     (let ip = takeWhile is_digit s; fr = tl (dropWhile is_digit s) in
      of_nat (dec ip) + of_nat (dec fr) / 10 ^ length fr)"

definition py_float :: "string \<Rightarrow> error + rat" where
  "py_float s = (if float_lit s then Inr (lit_val s) else Inl (InvalidLiteral s))"

text \<open>\<open>match.group(k)\<close> is None for a group that took no part in the match.\<close>

definition group_int :: "caps \<Rightarrow> nat \<Rightarrow> error + int" where
  "group_int c k = (case c k of None \<Rightarrow> Inl TypeError | Some w \<Rightarrow> py_int w)"

definition group_float :: "caps \<Rightarrow> nat \<Rightarrow> error + rat" where
  "group_float c k = (case c k of None \<Rightarrow> Inl TypeError | Some w \<Rightarrow> py_float w)"

subsection \<open>The line matchers\<close>

definition header_pattern :: regex where
  "header_pattern =
     cat [Bol, Str ''# OPEN3D_PARFOR_BLOCK: '', Group 1 (Plus Digit),
          Str '', OPEN3D_PARFOR_THREAD: '', Group 2 (Plus Digit)]"

definition match_block_thread_size :: "string \<Rightarrow> error + (int \<times> int) option" where
  "match_block_thread_size line =
     (case re_match header_pattern line of
        None \<Rightarrow> Inr None
      | Some c \<Rightarrow>
          (case group_int c 1 of
             Inl e \<Rightarrow> Inl e
           | Inr b \<Rightarrow> (case group_int c 2 of Inl e \<Rightarrow> Inl e | Inr t \<Rightarrow> Inr (Some (b, t)))))"

definition runtime_pattern :: regex where
  "runtime_pattern =
     cat [Bol, Star Dot, Plus (Lit CHR '' ''),
          Group 1 (cat [Plus Digit, Opt (cat [Str ''.'', Plus Digit])]),
          Str '' ms'', Plus (Lit CHR '' ''), Star Dot, Str ''ms'', Plus (Lit CHR '' ''),
          Group 2 (Plus Digit), Eol]"

definition match_runtime :: "string \<Rightarrow> error + rat option" where
  "match_runtime line =
     (case re_match runtime_pattern line of
        None \<Rightarrow> Inr None
      | Some c \<Rightarrow>
          (case group_float c 1 of
             Inl e \<Rightarrow> Inl e
           | Inr x \<Rightarrow>
               (case group_float c 2 of
                  Inl e \<Rightarrow> Inl e
                | Inr d \<Rightarrow> if d = 0 then Inl ZeroDivisionError else Inr (Some (x / d)))))"

definition cpu_pattern :: regex where
  "cpu_pattern = cat [Bol, Group 1 (cat [Star Dot, Str ''_CPU'']), Star Dot, Eol]"

definition extract_cpu_prefix :: "string \<Rightarrow> error + string" where
  "extract_cpu_prefix filename =
     (case re_match cpu_pattern filename of
        None \<Rightarrow> Inl (InvalidLogFile filename)
      | Some c \<Rightarrow> (case c 1 of None \<Rightarrow> Inl TypeError | Some w \<Rightarrow> Inr w))"

subsection \<open>The log parser\<close>

text \<open>
  \<open>str.strip()\<close> removes the white space at both ends; on 8-bit characters the white
  space of Python is the codes 9 to 13, 28 to 32, 133 and 160.
\<close>

definition is_space :: "char \<Rightarrow> bool" where
  "is_space x =
     (let k = (of_char x :: nat) in (9 \<le> k \<and> k \<le> 13) \<or> (28 \<le> k \<and> k \<le> 32) \<or> k = 133 \<or> k = 160)"

definition strip :: "string \<Rightarrow> string" where
  "strip s = rev (dropWhile is_space (rev (dropWhile is_space s)))"

record 'g group_record =
  block_size :: int
  thread_size :: int
  gmean :: 'g

text \<open>
  The state of the loop of \<open>parse_file\<close>: \<open>current_block_thread_size\<close>,
  \<open>current_runtimes\<close> and \<open>results\<close>.
\<close>

type_synonym 'g pstate = "(int \<times> int) option \<times> rat list \<times> 'g group_record list"

definition save :: "(rat list \<Rightarrow> 'g) \<Rightarrow> (int \<times> int) option \<Rightarrow> rat list \<Rightarrow>
    'g group_record list \<Rightarrow> 'g group_record list" where
  "save gm cur rts res =
     (case cur of
        None \<Rightarrow> res
      | Some bt \<Rightarrow> res @ [\<lparr>block_size = fst bt, thread_size = snd bt, gmean = gm rts\<rparr>])"

text \<open>
  One turn of the loop. Both matchers run on the line before the branch. A pair is always
  true as a condition, so \<open>if num_thread\<close> asks whether the header matched; a float is
  true when it is not zero, so \<open>elif runtime\<close> asks for a match with a value other than 0.
\<close>

definition step :: "(rat list \<Rightarrow> 'g) \<Rightarrow> 'g pstate \<Rightarrow> string \<Rightarrow> error + 'g pstate" where
  "step gm st line =
     (case st of (cur, rts, res) \<Rightarrow>
        (case match_block_thread_size line of
           Inl e \<Rightarrow> Inl e
         | Inr num_thread \<Rightarrow>
             (case match_runtime line of
                Inl e \<Rightarrow> Inl e
              | Inr runtime \<Rightarrow>
                  (case num_thread of
                     Some bt \<Rightarrow> Inr (Some bt, [], save gm cur rts res)
                   | None \<Rightarrow>
                       (case runtime of
                          None \<Rightarrow> Inr (cur, rts, res)
                        | Some v \<Rightarrow>
                            if v \<noteq> 0 then Inr (cur, rts @ [v], res) else Inr (cur, rts, res))))))"

fun loop :: "(rat list \<Rightarrow> 'g) \<Rightarrow> 'g pstate \<Rightarrow> string list \<Rightarrow> error + 'g pstate" where
  "loop gm st [] = Inr st"
| "loop gm st (l # ls) = (case step gm st l of Inl e \<Rightarrow> Inl e | Inr st' \<Rightarrow> loop gm st' ls)"

text \<open>The loop over the stripped lines, then the save of the last group.\<close>

definition parse_lines :: "(rat list \<Rightarrow> 'g) \<Rightarrow> string list \<Rightarrow> error + 'g group_record list" where
  "parse_lines gm ls =
     (case loop gm (None, [], []) ls of
        Inl e \<Rightarrow> Inl e
      | Inr (cur, rts, res) \<Rightarrow> Inr (save gm cur rts res))"

text \<open>\<open>parse_file\<close> on the list that \<open>f.readlines()\<close> returns.\<close>

definition parse_file :: "(rat list \<Rightarrow> 'g) \<Rightarrow> string list \<Rightarrow> error + 'g group_record list" where
  "parse_file gm raw = parse_lines gm (map strip raw)"

subsection \<open>The grid\<close>

definition block_sizes :: "int list" where
  "block_sizes = [1, 2, 4, 8, 16, 32, 64, 128, 256]"

definition thread_sizes :: "int list" where
  "thread_sizes = [1, 2, 4, 8, 16, 32, 64, 128, 256]"

text \<open>\<open>xs.index(v)\<close>: the first position of \<open>v\<close>, or the ValueError that names \<open>v\<close>.\<close>

fun index_of :: "int list \<Rightarrow> int \<Rightarrow> error + nat" where
  "index_of [] v = Inl (NotInList v)"
| "index_of (x # xs) v =
     (if x = v then Inr 0
      else (case index_of xs v of Inl e \<Rightarrow> Inl e | Inr i \<Rightarrow> Inr (Suc i)))"

type_synonym grid = "rat list list"

text \<open>\<open>np.ones((r, c)) * v\<close>\<close>

definition ones_times :: "nat \<Rightarrow> nat \<Rightarrow> rat \<Rightarrow> grid" where
  "ones_times r c v = replicate r (replicate c (1 * v))"

definition init_grid :: grid where
  "init_grid = ones_times (length block_sizes) (length thread_sizes) (- 1)"

text \<open>
  \<open>float("{:.2f}".format(x))\<close>: the format writes the number with two digits after the
  point that is nearest to \<open>x\<close>, a tie going to the even last digit, and \<open>float\<close>
  reads that number back. \<open>round_half_even\<close> is the rounding to an integer.
\<close>

definition round_half_even :: "rat \<Rightarrow> int" where
  "round_half_even q =
     (let f = \<lfloor>q\<rfloor>; d = q - of_int f in
      if d < 1 / 2 then f else if 1 / 2 < d then f + 1 else if even f then f else f + 1)"

definition format_2f :: "rat \<Rightarrow> rat" where
  "format_2f x = of_int (round_half_even (x * 100)) / 100"

text \<open>
  One turn of the fill loop (the \<open>print\<close> of the turn is left out). The value is
  formatted before the two lookups; a write outside the array would be an IndexError.
\<close>

definition fill_step :: "grid \<Rightarrow> rat group_record \<Rightarrow> error + grid" where
  "fill_step g result =
     (let runtime = format_2f (gmean result) in
      case index_of block_sizes (block_size result) of
        Inl e \<Rightarrow> Inl e
      | Inr y \<Rightarrow>
          (case index_of thread_sizes (thread_size result) of
             Inl e \<Rightarrow> Inl e
           | Inr x \<Rightarrow>
               if y < length g \<and> x < length (g ! y)
               then Inr (g[y := (g ! y)[x := runtime]])
               else Inl IndexError))"

fun fill_grid :: "grid \<Rightarrow> rat group_record list \<Rightarrow> error + grid" where
  "fill_grid g [] = Inr g"
| "fill_grid g (r # rs) =
     (case fill_step g r of Inl e \<Rightarrow> Inl e | Inr g' \<Rightarrow> fill_grid g' rs)"

text \<open>The main block up to the grid that is drawn.\<close>

definition main_grid :: "(rat list \<Rightarrow> rat) \<Rightarrow> string list \<Rightarrow> error + grid" where
  "main_grid gm raw =
     (case parse_file gm raw of
        Inl e \<Rightarrow> Inl e
      | Inr results \<Rightarrow> fill_grid init_grid results)"


subsection \<open>Notions used to state the properties\<close>

text \<open>A record both of whose sizes are among the candidates of the grid.\<close>

definition valid_record :: "'g group_record \<Rightarrow> bool" where
  "valid_record r = (block_size r \<in> set block_sizes \<and> thread_size r \<in> set thread_sizes)"

text \<open>A grid of the shape of \<open>init_grid\<close>.\<close>

definition grid_ok :: "grid \<Rightarrow> bool" where
  "grid_ok g =
     (length g = length block_sizes \<and> list_all (\<lambda>row. length row = length thread_sizes) g)"

text \<open>The records that are written to the cell in row \<open>i\<close> and column \<open>j\<close>.\<close>

definition hits :: "nat \<Rightarrow> nat \<Rightarrow> 'g group_record list \<Rightarrow> 'g group_record list" where
  "hits i j rs =
     filter (\<lambda>r. block_size r = block_sizes ! i \<and> thread_size r = thread_sizes ! j) rs"


text \<open>
  The log without the lines before the first header line that are no header and on which
  the runtime matcher returns a value.
\<close>

fun drop_pre_header_runtimes :: "string list \<Rightarrow> string list" where
  "drop_pre_header_runtimes [] = []"
| "drop_pre_header_runtimes (l # ls) =
     (case match_block_thread_size l of
        Inr None \<Rightarrow>
          (case match_runtime l of
             Inr (Some v) \<Rightarrow> drop_pre_header_runtimes ls
           | _ \<Rightarrow> l # drop_pre_header_runtimes ls)
      | _ \<Rightarrow> l # ls)"


text \<open>The end of \<open>parse_file\<close>: the save of the last group after the loop.\<close>

definition finish :: "(rat list \<Rightarrow> 'g) \<Rightarrow> error + 'g pstate \<Rightarrow> error + 'g group_record list" where
  "finish gm x = (case x of Inl e \<Rightarrow> Inl e | Inr (cur, rts, res) \<Rightarrow> Inr (save gm cur rts res))"

text \<open>With the identity for \<open>gm\<close> a record holds the samples of its group.\<close>

definition samples_nonzero :: "rat list group_record list \<Rightarrow> bool" where
  "samples_nonzero rs = list_all (\<lambda>r. 0 \<notin> set (gmean r)) rs"


text \<open>
  The words a pattern can consume, without regard to the order of preference, to the
  groups and to the two anchors. Every path of the matcher consumes such a word.
\<close>

fun lang :: "regex \<Rightarrow> string set" where
  "lang Bol = {[]}"
| "lang Eol = {[]}"
| "lang (Str w) = {w}"
| "lang (Star a) = {w. \<forall>x \<in> set w. cmatch a x}"
| "lang (Plus a) = {w. w \<noteq> [] \<and> (\<forall>x \<in> set w. cmatch a x)}"
| "lang (Opt r) = insert [] (lang r)"
| "lang (Seq r1 r2) = {u @ v | u v. u \<in> lang r1 \<and> v \<in> lang r2}"
| "lang (Group k r) = lang r"

text \<open>\<open>starts r st x\<close>: the path that the matcher prefers for \<open>r\<close> at \<open>st\<close> ends in \<open>x\<close>.\<close>

definition starts :: "regex \<Rightarrow> mstate \<Rightarrow> mstate \<Rightarrow> bool" where
  "starts r st x = (\<exists>xs. paths r st = x # xs)"

text \<open>The two literal parts of a header line.\<close>

definition hdr_prefix :: string where
  "hdr_prefix = ''# OPEN3D_PARFOR_BLOCK: ''"

definition hdr_middle :: string where
  "hdr_middle = '', OPEN3D_PARFOR_THREAD: ''"

text \<open>
  A line that begins like a header: the prefix, digits, the middle part, digits, and
  any text after them.
\<close>

definition header_form :: "string \<Rightarrow> bool" where
  "header_form line =
     (\<exists>B T rest. B \<noteq> [] \<and> list_all is_digit B \<and> T \<noteq> [] \<and> list_all is_digit T \<and>
        line = hdr_prefix @ B @ hdr_middle @ T @ rest)"





section \<open>Properties of the grid loop\<close>

lemma index_of_notin: "v \<notin> set xs \<Longrightarrow> index_of xs v = Inl (NotInList v)"
  by (induction xs) auto

lemma index_of_in: "v \<in> set xs \<Longrightarrow> \<exists>i. index_of xs v = Inr i \<and> i < length xs \<and> xs ! i = v"
  by (induction xs) auto

lemma index_of_nth: "distinct xs \<Longrightarrow> i < length xs \<Longrightarrow> index_of xs (xs ! i) = Inr i"
proof (induction xs arbitrary: i)
  case Nil
  then show ?case by simp
next
  case (Cons x xs)
  show ?case
  proof (cases i)
    case 0
    then show ?thesis by simp
  next
    case (Suc j)
    with Cons.prems have "xs ! j \<noteq> x" "j < length xs" "distinct xs" by auto
    with Cons.IH[of j] Suc show ?thesis by simp
  qed
qed

lemma fill_step_invalid:
  "\<not> valid_record r \<Longrightarrow>
   fill_step g r =
     Inl (NotInList (if block_size r \<notin> set block_sizes then block_size r else thread_size r))"
  using index_of_in[of "block_size r" block_sizes]
  by (auto simp: valid_record_def fill_step_def index_of_notin)

lemma grid_ok_update:
  "grid_ok g \<Longrightarrow> grid_ok (g[y := (g ! y)[x := v]])"
proof (cases "y < length g")
  case True
  assume ok: "grid_ok g"
  with True have "length (g ! y) = length thread_sizes"
    by (simp add: grid_ok_def list_all_length)
  with ok True show ?thesis
    by (auto simp: grid_ok_def list_all_length nth_list_update)
next
  case False
  assume "grid_ok g"
  with False show ?thesis by (simp add: list_update_beyond)
qed

lemma fill_step_valid:
  assumes "valid_record r" "grid_ok g"
  shows "\<exists>y x. index_of block_sizes (block_size r) = Inr y \<and> y < length block_sizes \<and>
           index_of thread_sizes (thread_size r) = Inr x \<and> x < length thread_sizes \<and>
           fill_step g r = Inr (g[y := (g ! y)[x := format_2f (gmean r)]])"
proof -
  from assms(1) obtain y where y: "index_of block_sizes (block_size r) = Inr y" "y < length block_sizes"
    using index_of_in[of "block_size r" block_sizes] by (auto simp: valid_record_def)
  from assms(1) obtain x where x: "index_of thread_sizes (thread_size r) = Inr x" "x < length thread_sizes"
    using index_of_in[of "thread_size r" thread_sizes] by (auto simp: valid_record_def)
  from assms(2) y(2) have "y < length g" "length (g ! y) = length thread_sizes"
    by (auto simp: grid_ok_def list_all_length)
  with x y show ?thesis by (simp add: fill_step_def)
qed

lemma fill_grid_first_invalid:
  "grid_ok g \<Longrightarrow> list_all valid_record pre \<Longrightarrow> \<not> valid_record r \<Longrightarrow>
   fill_grid g (pre @ r # post) =
     Inl (NotInList (if block_size r \<notin> set block_sizes then block_size r else thread_size r))"
proof (induction pre arbitrary: g)
  case Nil
  then show ?case by (simp add: fill_step_invalid)
next
  case (Cons p pre)
  from Cons.prems have "valid_record p" by simp
  from fill_step_valid[OF this Cons.prems(1)] obtain g' where
    g': "fill_step g p = Inr g'" "grid_ok g'"
    using grid_ok_update[OF Cons.prems(1)] by auto
  with Cons show ?case by simp
qed

lemma grid_ok_init: "grid_ok init_grid"
  by (simp add: grid_ok_def init_grid_def ones_times_def list_all_iff)

lemma candidates: "set block_sizes = {1, 2, 4, 8, 16, 32, 64, 128, 256}"
  "set thread_sizes = {1, 2, 4, 8, 16, 32, 64, 128, 256}"
  by (auto simp: block_sizes_def thread_sizes_def)

lemma sizes_distinct: "distinct block_sizes" "distinct thread_sizes"
  by (simp_all add: block_sizes_def thread_sizes_def)

lemma index_of_Inr: "index_of xs v = Inr y \<Longrightarrow> y < length xs \<and> xs ! y = v"
  by (induction xs arbitrary: y) (auto split: if_splits sum.splits)

lemma index_of_unique:
  assumes "distinct xs" "index_of xs v = Inr y" "i < length xs"
  shows "(xs ! i = v) = (i = y)"
proof
  assume "xs ! i = v"
  with index_of_nth[OF assms(1) assms(3)] assms(2) show "i = y" by simp
next
  assume "i = y"
  then show "xs ! i = v" using index_of_Inr[OF assms(2)] by simp
qed

lemma fill_grid_cells:
  "grid_ok g \<Longrightarrow> list_all valid_record rs \<Longrightarrow>
   \<exists>g'. fill_grid g rs = Inr g' \<and> grid_ok g' \<and>
     (\<forall>i < length block_sizes. \<forall>j < length thread_sizes.
        g' ! i ! j = (case hits i j rs of [] \<Rightarrow> g ! i ! j | h # hs \<Rightarrow> format_2f (gmean (last (h # hs)))))"
proof (induction rs arbitrary: g)
  case Nil
  then show ?case by (simp add: hits_def)
next
  case (Cons r rs)
  from Cons.prems have v: "valid_record r" and vs: "list_all valid_record rs" by simp_all
  from fill_step_valid[OF v Cons.prems(1)] obtain y x where
    y: "index_of block_sizes (block_size r) = Inr y" "y < length block_sizes" and
    x: "index_of thread_sizes (thread_size r) = Inr x" "x < length thread_sizes" and
    st: "fill_step g r = Inr (g[y := (g ! y)[x := format_2f (gmean r)]])"
    by blast
  let ?g1 = "g[y := (g ! y)[x := format_2f (gmean r)]]"
  have ok1: "grid_ok ?g1" by (rule grid_ok_update[OF Cons.prems(1)])
  from Cons.IH[OF ok1 vs] obtain g' where
    g': "fill_grid ?g1 rs = Inr g'" "grid_ok g'" and
    cells: "\<forall>i < length block_sizes. \<forall>j < length thread_sizes.
        g' ! i ! j = (case hits i j rs of [] \<Rightarrow> ?g1 ! i ! j | h # hs \<Rightarrow> format_2f (gmean (last (h # hs))))"
    by blast
  have "g' ! i ! j = (case hits i j (r # rs) of [] \<Rightarrow> g ! i ! j | h # hs \<Rightarrow> format_2f (gmean (last (h # hs))))"
    if ij: "i < length block_sizes" "j < length thread_sizes" for i j
  proof -
    have lg: "y < length g" "x < length (g ! y)"
      using Cons.prems(1) y(2) x(2) by (auto simp: grid_ok_def list_all_length)
    have hit: "(block_size r = block_sizes ! i \<and> thread_size r = thread_sizes ! j) = (i = y \<and> j = x)"
      using index_of_unique[OF sizes_distinct(1) y(1) ij(1)]
            index_of_unique[OF sizes_distinct(2) x(1) ij(2)] by auto
    have upd: "?g1 ! i ! j = (if i = y \<and> j = x then format_2f (gmean r) else g ! i ! j)"
      using lg by (auto simp: nth_list_update)
    from cells ij have c: "g' ! i ! j =
        (case hits i j rs of [] \<Rightarrow> ?g1 ! i ! j | h # hs \<Rightarrow> format_2f (gmean (last (h # hs))))"
      by blast
    show ?thesis
    proof (cases "i = y \<and> j = x")
      case True
      with hit have "hits i j (r # rs) = r # hits i j rs" by (simp add: hits_def)
      with c upd True show ?thesis by (simp split: list.splits)
    next
      case False
      with hit have "hits i j (r # rs) = hits i j rs" by (auto simp: hits_def)
      with c upd False show ?thesis by (auto split: list.splits)
    qed
  qed
  with g' st show ?case by simp
qed

lemma round_half_even_near: "\<bar>of_int (round_half_even q) - q\<bar> \<le> 1 / 2"
proof -
  have "of_int \<lfloor>q\<rfloor> \<le> q" "q < of_int \<lfloor>q\<rfloor> + 1" by linarith+
  then show ?thesis
    by (auto simp: round_half_even_def Let_def)
qed

lemma round_half_even_tie:
  "\<bar>of_int (round_half_even q) - q\<bar> = 1 / 2 \<Longrightarrow> even (round_half_even q)"
proof -
  assume t: "\<bar>of_int (round_half_even q) - q\<bar> = 1 / 2"
  have fl: "of_int \<lfloor>q\<rfloor> \<le> q" "q < of_int \<lfloor>q\<rfloor> + 1" by linarith+
  show ?thesis
  proof (cases "q - of_int \<lfloor>q\<rfloor> = 1 / 2")
    case True
    then show ?thesis by (simp add: round_half_even_def Let_def)
  next
    case False
    with t fl show ?thesis
      by (auto simp: round_half_even_def Let_def split: if_splits)
  qed
qed

text \<open>
  Claim C5. When a record has a block size or a thread size that is not one of the nine
  candidates 1, 2, 4, ..., 256, and the records before it are all valid, the fill loop
  stops at that record with the ValueError of \<open>list.index\<close>, which names the value
  that was not found: the block size if it is the unknown one, else the thread size.
  Nothing is dropped silently. The block size 3 is the instance of the witness.
\<close>

theorem grid_builder_rejects_unknown_size:
  assumes "list_all valid_record pre"
    and "block_size r \<notin> {1, 2, 4, 8, 16, 32, 64, 128, 256} \<or>
         thread_size r \<notin> {1, 2, 4, 8, 16, 32, 64, 128, 256}"
  shows "\<exists>v. fill_grid init_grid (pre @ r # post) = Inl (NotInList v) \<and>
           v \<notin> {1, 2, 4, 8, 16, 32, 64, 128, 256} \<and>
           v = (if block_size r \<notin> set block_sizes then block_size r else thread_size r)"
proof -
  from assms(2) have nv: "\<not> valid_record r"
    by (simp only: valid_record_def candidates) blast
  from assms(2) have "(if block_size r \<notin> set block_sizes then block_size r else thread_size r)
      \<notin> {1, 2, 4, 8, 16, 32, 64, 128, 256}"
    by (simp only: candidates split: if_splits) blast
  with fill_grid_first_invalid[OF grid_ok_init assms(1) nv, where post = post] show ?thesis
    by blast
qed

theorem grid_builder_rejects_unknown_size_witness:
  "fill_grid init_grid [\<lparr>block_size = 3, thread_size = 4, gmean = 7\<rparr>] = Inl (NotInList 3)"
  using grid_builder_rejects_unknown_size
    [of "[]" "\<lparr>block_size = 3, thread_size = 4, gmean = 7\<rparr>" "[]"]
  by (simp add: block_sizes_def)

text \<open>
  Claim C6. The grid starts as 9 rows of 9 cells that all hold \<open>-1\<close>. For records
  whose sizes are all candidates the fill loop succeeds, and the cell in row \<open>i\<close> and
  column \<open>j\<close> holds the rounded aggregate of the last record with the block size at
  position \<open>i\<close> and the thread size at position \<open>j\<close>, or \<open>-1\<close> when there is no
  such record. One turn of the loop writes the rounded aggregate of its record at the
  position of the block size and the position of the thread size. The rounded value of
  \<open>q\<close> is a number of hundredths, the one nearest to \<open>q\<close>, and the even one when
  two are equally near. The block size 2 is at position 1 and the thread size 4 at
  position 2.
\<close>

theorem grid_builder_fills_cells:
  "length init_grid = 9 \<and>
   (\<forall>i < 9. length (init_grid ! i) = 9 \<and> (\<forall>j < 9. init_grid ! i ! j = - 1)) \<and>
   (list_all valid_record rs \<longrightarrow>
     (\<exists>g. fill_grid init_grid rs = Inr g \<and> length g = 9 \<and>
        (\<forall>i < 9. length (g ! i) = 9 \<and>
           (\<forall>j < 9. g ! i ! j =
              (case hits i j rs of [] \<Rightarrow> - 1 | h # hs \<Rightarrow> format_2f (gmean (last (h # hs)))))))) \<and>
   (valid_record r \<and> grid_ok g \<longrightarrow>
     (\<exists>y x. index_of block_sizes (block_size r) = Inr y \<and>
            index_of thread_sizes (thread_size r) = Inr x \<and>
            fill_step g r = Inr (g[y := (g ! y)[x := format_2f (gmean r)]]))) \<and>
   (format_2f q = of_int (round_half_even (q * 100)) / 100 \<and>
    \<bar>of_int (round_half_even (q * 100)) - q * 100\<bar> \<le> 1 / 2 \<and>
    (\<bar>of_int (round_half_even (q * 100)) - q * 100\<bar> = 1 / 2 \<longrightarrow>
       even (round_half_even (q * 100)))) \<and>
   index_of block_sizes 2 = Inr 1 \<and> index_of thread_sizes 4 = Inr 2"
proof -
  have l9: "length block_sizes = 9" "length thread_sizes = 9"
    by (simp_all add: block_sizes_def thread_sizes_def)
  have a: "length init_grid = 9"
    by (simp add: init_grid_def ones_times_def l9)
  have b: "\<forall>i < 9. length (init_grid ! i) = 9 \<and> (\<forall>j < 9. init_grid ! i ! j = - 1)"
    by (simp add: init_grid_def ones_times_def l9)
  have c: "list_all valid_record rs \<longrightarrow>
     (\<exists>g. fill_grid init_grid rs = Inr g \<and> length g = 9 \<and>
        (\<forall>i < 9. length (g ! i) = 9 \<and>
           (\<forall>j < 9. g ! i ! j =
              (case hits i j rs of [] \<Rightarrow> - 1 | h # hs \<Rightarrow> format_2f (gmean (last (h # hs)))))))"
  proof
    assume "list_all valid_record rs"
    from fill_grid_cells[OF grid_ok_init this] obtain g' where
      g': "fill_grid init_grid rs = Inr g'" "grid_ok g'" and
      cells: "\<forall>i < 9. \<forall>j < 9.
        g' ! i ! j = (case hits i j rs of [] \<Rightarrow> init_grid ! i ! j
                      | h # hs \<Rightarrow> format_2f (gmean (last (h # hs))))"
      unfolding l9 by blast
    from g'(2) have shape: "length g' = 9" "\<forall>i < 9. length (g' ! i) = 9"
      by (simp_all add: grid_ok_def list_all_length l9)
    from cells b have "\<forall>i < 9. \<forall>j < 9.
        g' ! i ! j = (case hits i j rs of [] \<Rightarrow> - 1 | h # hs \<Rightarrow> format_2f (gmean (last (h # hs))))"
      by (auto split: list.splits)
    with g'(1) shape show "\<exists>g. fill_grid init_grid rs = Inr g \<and> length g = 9 \<and>
        (\<forall>i < 9. length (g ! i) = 9 \<and>
           (\<forall>j < 9. g ! i ! j =
              (case hits i j rs of [] \<Rightarrow> - 1 | h # hs \<Rightarrow> format_2f (gmean (last (h # hs))))))"
      by blast
  qed
  have d: "valid_record r \<and> grid_ok g \<longrightarrow>
     (\<exists>y x. index_of block_sizes (block_size r) = Inr y \<and>
            index_of thread_sizes (thread_size r) = Inr x \<and>
            fill_step g r = Inr (g[y := (g ! y)[x := format_2f (gmean r)]]))"
    using fill_step_valid[of r g] by blast
  have e: "index_of block_sizes 2 = Inr 1" "index_of thread_sizes 4 = Inr 2"
    by (simp_all add: block_sizes_def thread_sizes_def)
  have f: "format_2f q = of_int (round_half_even (q * 100)) / 100 \<and>
    \<bar>of_int (round_half_even (q * 100)) - q * 100\<bar> \<le> 1 / 2 \<and>
    (\<bar>of_int (round_half_even (q * 100)) - q * 100\<bar> = 1 / 2 \<longrightarrow>
       even (round_half_even (q * 100)))"
    using round_half_even_near[of "q * 100"] round_half_even_tie[of "q * 100"]
    by (simp add: format_2f_def)
  show ?thesis
    by (intro conjI a b c d f e)
qed

theorem grid_builder_fills_cells_witness:
  "fill_grid init_grid [\<lparr>block_size = 2, thread_size = 4, gmean = 10 / 3\<rparr>] =
     Inr ((init_grid)[1 := (init_grid ! 1)[2 := 333 / 100]])"
proof -
  let ?r = "\<lparr>block_size = 2, thread_size = 4, gmean = (10 / 3 :: rat)\<rparr>"
  have v: "valid_record ?r" by (simp add: valid_record_def block_sizes_def thread_sizes_def)
  have fl: "\<lfloor>1000 / 3 :: rat\<rfloor> = 333" by (rule floor_unique) simp_all
  have k: "round_half_even (10 / 3 * 100) = 333"
    by (simp add: round_half_even_def Let_def fl)
  from grid_builder_fills_cells[where r = ?r and g = init_grid and q = "10 / 3"] v grid_ok_init
  have e: "\<exists>y x. index_of block_sizes (block_size ?r) = Inr y \<and>
            index_of thread_sizes (thread_size ?r) = Inr x \<and>
            fill_step init_grid ?r = Inr (init_grid[y := (init_grid ! y)[x := format_2f (gmean ?r)]])"
    and f0: "format_2f (10 / 3) = of_int (round_half_even (10 / 3 * 100)) / 100"
    by blast+
  have f: "format_2f (10 / 3) = 333 / 100" unfolding f0 k by simp
  from e show ?thesis
    by (auto simp: f block_sizes_def thread_sizes_def numeral_2_eq_2)
qed

section \<open>Properties of the log parser\<close>

lemma parse_lines_finish: "parse_lines gm ls = finish gm (loop gm (None, [], []) ls)"
  by (simp add: parse_lines_def finish_def)







lemma finish_loop_None_rts:
  "finish gm (loop gm (None, rts, res) ls) = finish gm (loop gm (None, rts', res) ls)"
proof (induction ls arbitrary: rts rts')
  case Nil
  then show ?case by (simp add: finish_def save_def)
next
  case (Cons l ls)
  show ?case
    by (cases "match_block_thread_size l"; cases "match_runtime l")
       (auto simp: step_def save_def Cons.IH split: option.splits)
qed

lemma finish_loop_drop_pre:
  "finish gm (loop gm (None, rts, res) (drop_pre_header_runtimes ls)) =
   finish gm (loop gm (None, rts, res) ls)"
proof (induction ls arbitrary: rts)
  case Nil
  then show ?case by simp
next
  case (Cons l ls)
  show ?case
  proof (cases "match_block_thread_size l")
    case (Inl e)
    then show ?thesis by simp
  next
    case (Inr nt)
    show ?thesis
    proof (cases nt)
      case (Some bt)
      with Inr show ?thesis by simp
    next
      case None
      show ?thesis
      proof (cases "match_runtime l")
        case (Inl e)
        with None Inr show ?thesis by (simp add: step_def)
      next
        case rt: (Inr rt)
        show ?thesis
        proof (cases rt)
          case N: None
          with rt None Inr show ?thesis by (simp add: step_def Cons.IH)
        next
          case (Some v)
          with rt None Inr have "finish gm (loop gm (None, rts, res) (l # ls)) =
              finish gm (loop gm (None, (if v \<noteq> 0 then rts @ [v] else rts), res) ls)"
            by (simp add: step_def)
          also have "\<dots> = finish gm (loop gm (None, rts, res) ls)"
            by (rule finish_loop_None_rts)
          finally show ?thesis using Some rt None Inr by (simp add: Cons.IH)
        qed
      qed
    qed
  qed
qed

text \<open>
  Claim C9. Runtime values before the first header line have no influence on the result
  of the parser: the result is the same as on the log from which the lines before the
  first header that carry a runtime value are removed. The equation covers the error
  results as well, since a line on which the runtime matcher raises is not removed.
\<close>

theorem pre_header_runtimes_dropped:
  "parse_lines gm (drop_pre_header_runtimes ls) = parse_lines gm ls"
  by (simp only: parse_lines_finish finish_loop_drop_pre)

theorem pre_header_runtimes_dropped_witness:
  "drop_pre_header_runtimes
     [''x 5 ms y ms 1'', ''# OPEN3D_PARFOR_BLOCK: 1, OPEN3D_PARFOR_THREAD: 2'', ''x 8 ms y ms 2''] =
     [''# OPEN3D_PARFOR_BLOCK: 1, OPEN3D_PARFOR_THREAD: 2'', ''x 8 ms y ms 2''] \<and>
   parse_lines (\<lambda>xs. xs)
     [''x 5 ms y ms 1'', ''# OPEN3D_PARFOR_BLOCK: 1, OPEN3D_PARFOR_THREAD: 2'', ''x 8 ms y ms 2''] =
     Inr [\<lparr>block_size = 1, thread_size = 2, gmean = [4]\<rparr>]"
proof -
  have a: "drop_pre_header_runtimes
     [''x 5 ms y ms 1'', ''# OPEN3D_PARFOR_BLOCK: 1, OPEN3D_PARFOR_THREAD: 2'', ''x 8 ms y ms 2''] =
     [''# OPEN3D_PARFOR_BLOCK: 1, OPEN3D_PARFOR_THREAD: 2'', ''x 8 ms y ms 2'']"
    by code_simp
  have b: "parse_lines (\<lambda>xs. xs)
     [''# OPEN3D_PARFOR_BLOCK: 1, OPEN3D_PARFOR_THREAD: 2'', ''x 8 ms y ms 2''] =
     Inr [\<lparr>block_size = 1, thread_size = 2, gmean = [4::rat]\<rparr>]"
    by code_simp
  from pre_header_runtimes_dropped[of "\<lambda>xs. xs"
      "[''x 5 ms y ms 1'', ''# OPEN3D_PARFOR_BLOCK: 1, OPEN3D_PARFOR_THREAD: 2'', ''x 8 ms y ms 2'']"]
    a b show ?thesis by simp
qed

lemma step_zero_runtime:
  assumes "match_runtime l = Inr (Some 0)"
  shows "step gm (cur, rts, res) l =
     (case match_block_thread_size l of
        Inl e \<Rightarrow> Inl e
      | Inr None \<Rightarrow> Inr (cur, rts, res)
      | Inr (Some bt) \<Rightarrow> Inr (Some bt, [], save gm cur rts res))"
  using assms by (simp add: step_def split: sum.splits option.splits)

lemma step_nonzero_inv:
  "step (\<lambda>xs. xs) (cur, rts, res) l = Inr (cur', rts', res') \<Longrightarrow>
   0 \<notin> set rts \<Longrightarrow> samples_nonzero res \<Longrightarrow> 0 \<notin> set rts' \<and> samples_nonzero res'"
  by (auto simp: step_def save_def samples_nonzero_def split: sum.splits option.splits if_splits)

lemma loop_nonzero_inv:
  "loop (\<lambda>xs. xs) (cur, rts, res) ls = Inr (cur', rts', res') \<Longrightarrow>
   0 \<notin> set rts \<Longrightarrow> samples_nonzero res \<Longrightarrow> 0 \<notin> set rts' \<and> samples_nonzero res'"
proof (induction ls arbitrary: cur rts res)
  case Nil
  then show ?case by simp
next
  case (Cons l ls)
  from Cons.prems(1) obtain cur1 rts1 res1 where
    s: "step (\<lambda>xs. xs) (cur, rts, res) l = Inr (cur1, rts1, res1)" and
    r: "loop (\<lambda>xs. xs) (cur1, rts1, res1) ls = Inr (cur', rts', res')"
    by (auto split: sum.splits)
  from step_nonzero_inv[OF s Cons.prems(2,3)] Cons.IH[OF r] show ?case by blast
qed

lemma parse_lines_nonzero:
  assumes "parse_lines (\<lambda>xs. xs) ls = Inr rs"
  shows "samples_nonzero rs"
proof -
  from assms obtain cur rts res where
    l: "loop (\<lambda>xs. xs) (None, [], []) ls = Inr (cur, rts, res)" and
    rs: "rs = save (\<lambda>xs. xs) cur rts res"
    by (auto simp: parse_lines_def split: sum.splits)
  from loop_nonzero_inv[OF l] have "0 \<notin> set rts \<and> samples_nonzero res"
    by (simp add: samples_nonzero_def)
  with rs show ?thesis by (auto simp: save_def samples_nonzero_def split: option.splits)
qed

text \<open>
  Claim C10. On a line for which the runtime matcher returns the value 0 the turn of the
  loop is the turn of a line without a runtime: the state is unchanged, or, when the line
  is a header as well, the header branch is taken. The value 0 is never appended, also
  when a group is open. As a consequence no group of a parsed log holds a sample 0
  (with the identity for \<open>gm\<close> the record shows its samples).
\<close>

theorem zero_runtime_discarded:
  "(match_runtime l = Inr (Some 0) \<longrightarrow>
      step gm (cur, rts, res) l =
        (case match_block_thread_size l of
           Inl e \<Rightarrow> Inl e
         | Inr None \<Rightarrow> Inr (cur, rts, res)
         | Inr (Some bt) \<Rightarrow> Inr (Some bt, [], save gm cur rts res))) \<and>
   (parse_lines (\<lambda>xs. xs) ls = Inr rs \<longrightarrow> list_all (\<lambda>r. 0 \<notin> set (gmean r)) rs)"
  using step_zero_runtime[of l gm cur rts res] parse_lines_nonzero[of ls rs]
  by (simp add: samples_nonzero_def)

theorem zero_runtime_discarded_witness:
  "match_runtime ''a 0.0 ms b ms 4'' = Inr (Some 0) \<and>
   step (\<lambda>xs. xs) (Some (1, 2), [3], []) ''a 0.0 ms b ms 4'' = Inr (Some (1, 2), [3], [])"
proof -
  have a: "match_runtime ''a 0.0 ms b ms 4'' = Inr (Some 0)" by code_simp
  have b: "match_block_thread_size ''a 0.0 ms b ms 4'' = Inr None" by code_simp
  from zero_runtime_discarded[of "''a 0.0 ms b ms 4''" "\<lambda>xs. xs" "Some (1, 2)" "[3]" "[]" "[]" "[]"]
    a b show ?thesis by simp
qed





section \<open>Properties of the matcher\<close>

lemma star_elems:
  "(n', s', c') \<in> set (star a (n, s, c)) \<Longrightarrow>
   \<exists>w. (\<forall>x \<in> set w. cmatch a x) \<and> s = w @ s' \<and> n' = n + length w \<and> c' = c"
proof (induction s arbitrary: n)
  case Nil
  then show ?case by simp
next
  case (Cons x xs)
  from Cons.prems consider
    (rec) "cmatch a x" "(n', s', c') \<in> set (star a (Suc n, xs, c))" |
    (here) "(n', s', c') = (n, x # xs, c)"
    by (auto split: if_splits)
  then show ?case
  proof cases
    case rec
    from Cons.IH[OF rec(2)] obtain w where
      "\<forall>x \<in> set w. cmatch a x" "xs = w @ s'" "n' = Suc n + length w" "c' = c" by blast
    with rec(1) show ?thesis by (intro exI[of _ "x # w"]) simp
  next
    case here
    then show ?thesis by (intro exI[of _ "[]"]) simp
  qed
qed

lemma plus_elems:
  "(n', s', c') \<in> set (plus a (n, s, c)) \<Longrightarrow>
   \<exists>w. w \<noteq> [] \<and> (\<forall>x \<in> set w. cmatch a x) \<and> s = w @ s' \<and> n' = n + length w \<and> c' = c"
proof (cases s)
  case Nil
  assume "(n', s', c') \<in> set (plus a (n, s, c))"
  with Nil show ?thesis by simp
next
  case (Cons x xs)
  assume "(n', s', c') \<in> set (plus a (n, s, c))"
  with Cons have m: "cmatch a x" and "(n', s', c') \<in> set (star a (Suc n, xs, c))"
    by (auto split: if_splits)
  from star_elems[OF this(2)] obtain w where
    "\<forall>x \<in> set w. cmatch a x" "xs = w @ s'" "n' = Suc n + length w" "c' = c" by blast
  with m Cons show ?thesis by (intro exI[of _ "x # w"]) simp
qed

lemma paths_sound:
  "(n', s', c') \<in> set (paths r (n, s, c)) \<Longrightarrow>
   \<exists>w. w \<in> lang r \<and> s = w @ s' \<and> n' = n + length w"
proof (induction r arbitrary: n s c n' s' c')
  case Bol
  then show ?case by (auto split: if_splits)
next
  case Eol
  then show ?case by (auto split: if_splits)
next
  case (Str w)
  then show ?case
    by (auto split: if_splits intro: append_take_drop_id[symmetric])
       (metis append_take_drop_id)
next
  case (Star a)
  then show ?case using star_elems[of n' s' c' a n s c] by auto
next
  case (Plus a)
  then show ?case using plus_elems[of n' s' c' a n s c] by auto
next
  case (Opt r)
  from Opt.prems consider "(n', s', c') \<in> set (paths r (n, s, c))" | "(n', s', c') = (n, s, c)"
    by auto
  then show ?case
  proof cases
    case 1
    from Opt.IH[OF 1] show ?thesis by auto
  next
    case 2
    then show ?thesis by auto
  qed
next
  case (Seq r1 r2)
  from Seq.prems obtain n1 s1 c1 where
    a: "(n1, s1, c1) \<in> set (paths r1 (n, s, c))" and
    b: "(n', s', c') \<in> set (paths r2 (n1, s1, c1))"
    by auto
  from Seq.IH(1)[OF a] obtain u where u: "u \<in> lang r1" "s = u @ s1" "n1 = n + length u" by blast
  from Seq.IH(2)[OF b] obtain v where v: "v \<in> lang r2" "s1 = v @ s'" "n' = n1 + length v" by blast
  from u v show ?case by (intro exI[of _ "u @ v"]) auto
next
  case (Group k r)
  from Group.prems obtain c0 where "(n', s', c0) \<in> set (paths r (n, s, c))" by auto
  from Group.IH[OF this] show ?case by simp
qed

lemma no_match_if_not_lang:
  assumes "\<And>w s'. w \<in> lang r \<Longrightarrow> line \<noteq> w @ s'"
  shows "paths r (n, line, c) = []"
proof (rule ccontr)
  assume "paths r (n, line, c) \<noteq> []"
  then obtain n' s' c' where "(n', s', c') \<in> set (paths r (n, line, c))"
    by (cases "paths r (n, line, c)") auto
  from paths_sound[OF this] assms show False by blast
qed

lemma starts_Seq: "starts r1 st x \<Longrightarrow> starts r2 x y \<Longrightarrow> starts (Seq r1 r2) st y"
  by (auto simp: starts_def)

lemma concat_map_Nil: "\<forall>z \<in> set xs. f z = [] \<Longrightarrow> concat (map f xs) = []"
  by (induction xs) auto

lemma starts_Seq_skip:
  "paths r1 st = xs @ x # ys \<Longrightarrow> \<forall>z \<in> set xs. paths r2 z = [] \<Longrightarrow> starts r2 x y \<Longrightarrow>
   starts (Seq r1 r2) st y"
  by (auto simp: starts_def concat_map_Nil)

lemma starts_Group:
  "starts r (n, s, c) (n', s', c') \<Longrightarrow>
   starts (Group k r) (n, s, c) (n', s', c'(k \<mapsto> take (n' - n) s))"
  by (auto simp: starts_def)



lemma starts_Str: "starts (Str w) (n, w @ s, c) (n + length w, s, c)"
  by (simp add: starts_def)

lemma starts_Bol: "starts Bol (0, s, c) (0, s, c)"
  by (simp add: starts_def)

lemma starts_Eol: "starts Eol (n, [], c) (n, [], c)"
  by (simp add: starts_def)

text \<open>
  The states of a star before the one after the run \<open>u\<close> are those of longer runs.
\<close>

lemma star_split:
  "\<forall>x \<in> set u. cmatch a x \<Longrightarrow>
   \<exists>xs ys. star a (n, u @ s, c) = xs @ (n + length u, s, c) # ys \<and>
     (\<forall>z \<in> set xs. \<exists>w. w \<noteq> [] \<and> s = w @ fst (snd z) \<and> fst z = n + length u + length w \<and> snd (snd z) = c)"
proof (induction u arbitrary: n)
  case Nil
  show ?case
  proof (cases s)
    case Nil
    then show ?thesis by (intro exI[of _ "[]"]) simp
  next
    case (Cons y ys)
    show ?thesis
    proof (cases "cmatch a y")
      case True
      have "\<forall>z \<in> set (star a (Suc n, ys, c)).
          \<exists>w. w \<noteq> [] \<and> s = w @ fst (snd z) \<and> fst z = n + length w \<and> snd (snd z) = c"
      proof
        fix z assume z: "z \<in> set (star a (Suc n, ys, c))"
        obtain n' s' c' where zz: "z = (n', s', c')" by (cases z) auto
        from star_elems[OF z[unfolded zz]] obtain w where
          "ys = w @ s'" "n' = Suc n + length w" "c' = c" by blast
        with Cons zz show "\<exists>w. w \<noteq> [] \<and> s = w @ fst (snd z) \<and> fst z = n + length w \<and> snd (snd z) = c"
          by (intro exI[of _ "y # w"]) simp
      qed
      with Cons True show ?thesis
        by (intro exI[of _ "star a (Suc n, ys, c)"] exI[of _ "[]"]) simp
    next
      case False
      with Cons show ?thesis by (intro exI[of _ "[]"]) simp
    qed
  qed
next
  case (Cons x u)
  from Cons.prems have x: "cmatch a x" and u: "\<forall>x \<in> set u. cmatch a x" by simp_all
  from Cons.IH[OF u, of "Suc n"] obtain xs ys where
    e: "star a (Suc n, u @ s, c) = xs @ (Suc n + length u, s, c) # ys" and
    l: "\<forall>z \<in> set xs. \<exists>w. w \<noteq> [] \<and> s = w @ fst (snd z) \<and> fst z = Suc n + length u + length w \<and> snd (snd z) = c"
    by blast
  from x e have "star a (n, (x # u) @ s, c) =
      xs @ (n + length (x # u), s, c) # (ys @ [(n, x # u @ s, c)])" by simp
  with l show ?case by (intro exI[of _ xs] exI[of _ "ys @ [(n, x # u @ s, c)]"]) simp
qed

lemma starts_Star:
  "\<forall>x \<in> set u. cmatch a x \<Longrightarrow> s = [] \<or> \<not> cmatch a (hd s) \<Longrightarrow>
   starts (Star a) (n, u @ s, c) (n + length u, s, c)"
proof (induction u arbitrary: n)
  case Nil
  then show ?case by (cases s) (auto simp: starts_def)
next
  case (Cons x u)
  from Cons.IH[of "Suc n"] Cons.prems show ?case by (auto simp: starts_def)
qed

lemma starts_Plus:
  "u \<noteq> [] \<Longrightarrow> \<forall>x \<in> set u. cmatch a x \<Longrightarrow> s = [] \<or> \<not> cmatch a (hd s) \<Longrightarrow>
   starts (Plus a) (n, u @ s, c) (n + length u, s, c)"
proof (cases u)
  case Nil
  assume "u \<noteq> []" with Nil show ?thesis by simp
next
  case (Cons x v)
  assume "\<forall>x \<in> set u. cmatch a x" "s = [] \<or> \<not> cmatch a (hd s)"
  with Cons starts_Star[of v a s "Suc n" c] show ?thesis by (auto simp: starts_def)
qed


section \<open>Properties of the header matcher\<close>

lemma header_pattern_alt:
  "header_pattern =
     Seq Bol (Seq (Str hdr_prefix) (Seq (Group 1 (Plus Digit))
       (Seq (Str hdr_middle) (Group 2 (Plus Digit)))))"
  by (simp add: header_pattern_def hdr_prefix_def hdr_middle_def)

lemma lang_header:
  "w \<in> lang header_pattern \<Longrightarrow>
   \<exists>B T. B \<noteq> [] \<and> list_all is_digit B \<and> T \<noteq> [] \<and> list_all is_digit T \<and>
     w = hdr_prefix @ B @ hdr_middle @ T"
  unfolding header_pattern_alt by (auto simp: list_all_iff)

lemma hdr_middle_hd: "hdr_middle @ s = CHR '','' # tl hdr_middle @ s" "\<not> is_digit CHR '',''"
  by (simp_all add: hdr_middle_def is_digit_def)

lemma header_starts:
  assumes B: "B \<noteq> []" "list_all is_digit B" and T: "T \<noteq> []" "list_all is_digit T"
    and rest: "rest = [] \<or> \<not> is_digit (hd rest)"
  shows "\<exists>n. starts header_pattern (0, hdr_prefix @ B @ hdr_middle @ T @ rest, c)
           (n, rest, c(1 \<mapsto> B, 2 \<mapsto> T))"
proof -
  let ?n1 = "0 + length hdr_prefix"
  let ?n2 = "?n1 + length B"
  let ?n3 = "?n2 + length hdr_middle"
  let ?n4 = "?n3 + length T"
  let ?c1 = "c(1 \<mapsto> B)"
  have s0: "starts Bol (0, hdr_prefix @ B @ hdr_middle @ T @ rest, c)
      (0, hdr_prefix @ B @ hdr_middle @ T @ rest, c)"
    by (rule starts_Bol)
  have s1: "starts (Str hdr_prefix) (0, hdr_prefix @ B @ hdr_middle @ T @ rest, c)
      (?n1, B @ hdr_middle @ T @ rest, c)"
    by (rule starts_Str)
  have "starts (Plus Digit) (?n1, B @ (hdr_middle @ T @ rest), c) (?n2, hdr_middle @ T @ rest, c)"
    using B by (intro starts_Plus) (simp_all add: list_all_iff hdr_middle_hd)
  from starts_Group[OF this, of 1]
  have s2: "starts (Group 1 (Plus Digit)) (?n1, B @ hdr_middle @ T @ rest, c)
      (?n2, hdr_middle @ T @ rest, ?c1)"
    by simp
  have s3: "starts (Str hdr_middle) (?n2, hdr_middle @ T @ rest, ?c1) (?n3, T @ rest, ?c1)"
    by (rule starts_Str)
  have "starts (Plus Digit) (?n3, T @ rest, ?c1) (?n4, rest, ?c1)"
    using T rest by (intro starts_Plus) (simp_all add: list_all_iff)
  from starts_Group[OF this, of 2]
  have s4: "starts (Group 2 (Plus Digit)) (?n3, T @ rest, ?c1) (?n4, rest, ?c1(2 \<mapsto> T))"
    by simp
  show ?thesis
    unfolding header_pattern_alt
    by (intro exI[of _ ?n4] starts_Seq[OF s0] starts_Seq[OF s1] starts_Seq[OF s2]
          starts_Seq[OF s3] s4)
qed

lemma py_int_digits:
  "B \<noteq> [] \<Longrightarrow> list_all is_digit B \<Longrightarrow>
   py_int B = (if 4300 < length B then Inl (TooManyDigits (length B)) else Inr (int (dec B)))"
  by (simp add: py_int_def int_max_str_digits_def)

lemma header_match_form:
  assumes B: "B \<noteq> []" "list_all is_digit B" and T: "T \<noteq> []" "list_all is_digit T"
    and rest: "rest = [] \<or> \<not> is_digit (hd rest)"
  shows "match_block_thread_size (hdr_prefix @ B @ hdr_middle @ T @ rest) =
     (if 4300 < length B then Inl (TooManyDigits (length B))
      else if 4300 < length T then Inl (TooManyDigits (length T))
      else Inr (Some (int (dec B), int (dec T))))"
proof -
  from header_starts[OF assms, of Map.empty] obtain n xs where
    "paths header_pattern (0, hdr_prefix @ B @ hdr_middle @ T @ rest, Map.empty) =
       (n, rest, [1 \<mapsto> B, 2 \<mapsto> T]) # xs"
    by (auto simp: starts_def)
  then have "re_match header_pattern (hdr_prefix @ B @ hdr_middle @ T @ rest) =
      Some [1 \<mapsto> B, 2 \<mapsto> T]"
    by (simp add: re_match_def)
  then show ?thesis
    using B T by (simp add: match_block_thread_size_def group_int_def py_int_digits)
qed

lemma header_no_match:
  assumes "\<not> header_form line"
  shows "match_block_thread_size line = Inr None"
proof -
  have "paths header_pattern (0, line, Map.empty) = []"
  proof (rule no_match_if_not_lang)
    fix w s' assume "w \<in> lang header_pattern"
    from lang_header[OF this] obtain B T where
      f: "B \<noteq> []" "list_all is_digit B" "T \<noteq> []" "list_all is_digit T"
         "w = hdr_prefix @ B @ hdr_middle @ T"
      by blast
    show "line \<noteq> w @ s'"
    proof
      assume "line = w @ s'"
      with f have "header_form line"
        unfolding header_form_def by (intro exI[of _ B] exI[of _ T] exI[of _ s']) simp
      with assms show False by simp
    qed
  qed
  then show ?thesis by (simp add: match_block_thread_size_def re_match_def)
qed

lemma header_form_maximal:
  assumes "header_form line"
  shows "\<exists>B T rest. B \<noteq> [] \<and> list_all is_digit B \<and> T \<noteq> [] \<and> list_all is_digit T \<and>
     (rest = [] \<or> \<not> is_digit (hd rest)) \<and> line = hdr_prefix @ B @ hdr_middle @ T @ rest"
proof -
  from assms obtain B T rest where
    f: "B \<noteq> []" "list_all is_digit B" "T \<noteq> []" "list_all is_digit T"
       "line = hdr_prefix @ B @ hdr_middle @ T @ rest"
    by (auto simp: header_form_def)
  let ?T = "T @ takeWhile is_digit rest"
  let ?r = "dropWhile is_digit rest"
  have "?r = [] \<or> \<not> is_digit (hd ?r)" using hd_dropWhile[of is_digit rest] by blast
  moreover have "list_all is_digit ?T" using f(4) by (auto simp: list_all_iff dest: set_takeWhileD)
  moreover have "line = hdr_prefix @ B @ hdr_middle @ ?T @ ?r" using f(5) by simp
  ultimately show ?thesis using f(1,2,3) by (intro exI[of _ B] exI[of _ ?T] exI[of _ ?r]) simp
qed

lemma header_error:
  assumes "match_block_thread_size line = Inl e"
  shows "\<exists>n. e = TooManyDigits n \<and> 4300 < n \<and> n < length line"
proof (cases "header_form line")
  case True
  from header_form_maximal[OF this] obtain B T rest where
    f: "B \<noteq> []" "list_all is_digit B" "T \<noteq> []" "list_all is_digit T"
      "rest = [] \<or> \<not> is_digit (hd rest)" and
    l: "line = hdr_prefix @ B @ hdr_middle @ T @ rest"
    by blast
  have lB: "length B < length line" and lT: "length T < length line"
    by (simp_all add: l hdr_prefix_def)
  from header_match_form[OF f] assms l consider
    "e = TooManyDigits (length B)" "4300 < length B" |
    "e = TooManyDigits (length T)" "4300 < length T"
    by (auto split: if_splits)
  then show ?thesis using lB lT by cases blast+
next
  case False
  from header_no_match[OF this] assms show ?thesis by simp
qed

lemma digits_replicate: "is_digit x \<Longrightarrow> list_all is_digit (replicate n x)"
  by (simp add: list_all_iff)

lemma header_digit_limit:
  "match_block_thread_size
     (''# OPEN3D_PARFOR_BLOCK: '' @ replicate 4301 CHR ''1'' @ '', OPEN3D_PARFOR_THREAD: '' @ ''1'') =
     Inl (TooManyDigits 4301)"
proof -
  define B where "B = replicate 4301 CHR ''1''"
  have d: "is_digit CHR ''1''" by (simp add: is_digit_def)
  have B: "B \<noteq> []" "list_all is_digit B" "length B = 4301"
    by (simp_all add: B_def digits_replicate[OF d])
  have T: "''1'' \<noteq> []" "list_all is_digit ''1''" by (simp_all add: d)
  from header_match_form[OF B(1,2) T, of "[]"] B(3)
  have "match_block_thread_size (hdr_prefix @ B @ hdr_middle @ ''1'' @ []) =
      Inl (TooManyDigits 4301)"
    by simp
  then show ?thesis by (simp only: hdr_prefix_def hdr_middle_def B_def append_Nil2)
qed

text \<open>
  Claim C4 says that the header matcher raises on no line. \<open>int\<close> raises on a string of
  more than 4300 digits, and the pattern puts no bound on the digits of a group: a header
  with a block size of 4301 digits raises.
\<close>

theorem header_matcher_digit_limit_counterexample:
  "match_block_thread_size
     (''# OPEN3D_PARFOR_BLOCK: '' @ replicate 4301 CHR ''1'' @ '', OPEN3D_PARFOR_THREAD: '' @ ''1'') =
     Inl (TooManyDigits 4301)"
  by (rule header_digit_limit)

text \<open>
  Claim C4, amended. On a line that consists of the header prefix, the digits \<open>B\<close>, the
  middle part and the digits \<open>T\<close> (followed by nothing, or by text that does not go on
  with a digit) the header matcher returns the pair of the numbers that \<open>B\<close> and
  \<open>T\<close> denote, when neither has more than 4300 digits; else it raises the ValueError
  of \<open>int\<close> for the first of the two that is too long. On a line that does not begin
  with such a header it returns None. It raises in no other case: every error is that of
  a number of more than 4300 digits on the line, and on a line of at most 4300 characters
  the result is never an error. (As \<open>re.match\<close> does, the pattern matches at the start
  of the line and does not look at what follows the digits of \<open>T\<close>.)
\<close>

theorem header_matcher_result:
  "(B \<noteq> [] \<and> list_all is_digit B \<and> T \<noteq> [] \<and> list_all is_digit T \<and>
      (rest = [] \<or> \<not> is_digit (hd rest)) \<longrightarrow>
      match_block_thread_size
        (''# OPEN3D_PARFOR_BLOCK: '' @ B @ '', OPEN3D_PARFOR_THREAD: '' @ T @ rest) =
        (if 4300 < length B then Inl (TooManyDigits (length B))
         else if 4300 < length T then Inl (TooManyDigits (length T))
         else Inr (Some (int (dec B), int (dec T))))) \<and>
   (\<not> header_form line \<longrightarrow> match_block_thread_size line = Inr None) \<and>
   (match_block_thread_size line = Inl e \<longrightarrow>
      (\<exists>n. e = TooManyDigits n \<and> 4300 < n \<and> n < length line)) \<and>
   (length line \<le> 4300 \<longrightarrow> (\<exists>r. match_block_thread_size line = Inr r))"
proof (intro conjI impI; (elim conjE)?)
  assume h: "B \<noteq> []" "list_all is_digit B" "T \<noteq> []" "list_all is_digit T"
    "rest = [] \<or> \<not> is_digit (hd rest)"
  from header_match_form[OF h]
  show "match_block_thread_size
        (''# OPEN3D_PARFOR_BLOCK: '' @ B @ '', OPEN3D_PARFOR_THREAD: '' @ T @ rest) =
        (if 4300 < length B then Inl (TooManyDigits (length B))
         else if 4300 < length T then Inl (TooManyDigits (length T))
         else Inr (Some (int (dec B), int (dec T))))"
    by (simp only: hdr_prefix_def hdr_middle_def)
next
  assume "\<not> header_form line"
  then show "match_block_thread_size line = Inr None" by (rule header_no_match)
next
  assume "match_block_thread_size line = Inl e"
  then show "\<exists>n. e = TooManyDigits n \<and> 4300 < n \<and> n < length line" by (rule header_error)
next
  assume len: "length line \<le> 4300"
  show "\<exists>r. match_block_thread_size line = Inr r"
  proof (cases "match_block_thread_size line")
    case (Inl e)
    from header_error[OF this] len show ?thesis by auto
  next
    case (Inr r)
    then show ?thesis by blast
  qed
qed

theorem header_matcher_result_witness:
  "match_block_thread_size ''# OPEN3D_PARFOR_BLOCK: 16, OPEN3D_PARFOR_THREAD: 256'' =
     Inr (Some (16, 256)) \<and>
   match_block_thread_size ''OPEN3D_PARFOR_BLOCK: 16'' = Inr None \<and>
   (\<exists>n. TooManyDigits 4301 = TooManyDigits n \<and> 4300 < n \<and>
      n < length (''# OPEN3D_PARFOR_BLOCK: '' @ replicate 4301 CHR ''1'' @
                  '', OPEN3D_PARFOR_THREAD: '' @ ''1'')) \<and>
   (\<exists>r. match_block_thread_size ''# OPEN3D_PARFOR_BLOCK: 16, OPEN3D_PARFOR_THREAD: 256'' = Inr r)"
proof -
  have d: "dec ''16'' = 16" "dec ''256'' = 256" by code_simp+
  have h: "''16'' \<noteq> [] \<and> list_all is_digit ''16'' \<and> ''256'' \<noteq> [] \<and> list_all is_digit ''256'' \<and>
      ([] = [] \<or> \<not> is_digit (hd ([] :: string)))"
    by (simp add: is_digit_def)
  have nf: "\<not> header_form ''OPEN3D_PARFOR_BLOCK: 16''"
    by (simp add: header_form_def hdr_prefix_def)
  have len: "length ''# OPEN3D_PARFOR_BLOCK: 16, OPEN3D_PARFOR_THREAD: 256'' \<le> 4300"
    by simp
  note t = header_matcher_result[where B = "''16''" and T = "''256''" and rest = "[]"
      and line = "''OPEN3D_PARFOR_BLOCK: 16''" and e = TypeError]
  note u = header_matcher_result[where B = "''16''" and T = "''256''" and rest = "[]"
      and line = "''# OPEN3D_PARFOR_BLOCK: '' @ replicate 4301 CHR ''1'' @
                  '', OPEN3D_PARFOR_THREAD: '' @ ''1''"
      and e = "TooManyDigits 4301"]
  note w = header_matcher_result[where B = "''16''" and T = "''256''" and rest = "[]"
      and line = "''# OPEN3D_PARFOR_BLOCK: 16, OPEN3D_PARFOR_THREAD: 256''" and e = TypeError]
  from t[THEN conjunct1, rule_format, OF h] d
  have a: "match_block_thread_size ''# OPEN3D_PARFOR_BLOCK: 16, OPEN3D_PARFOR_THREAD: 256'' =
     Inr (Some (16, 256))"
    by simp
  from t[THEN conjunct2, THEN conjunct1, rule_format, OF nf]
  have b: "match_block_thread_size ''OPEN3D_PARFOR_BLOCK: 16'' = Inr None" .
  note c = u[THEN conjunct2, THEN conjunct2, THEN conjunct1, rule_format, OF header_digit_limit]
  note e = w[THEN conjunct2, THEN conjunct2, THEN conjunct2, rule_format, OF len]
  from a b c e show ?thesis by (intro conjI)
qed

section \<open>Header lines and runtime lines\<close>

lemma runtime_pattern_alt:
  "runtime_pattern =
     Seq Bol (Seq (Star Dot) (Seq (Plus (Lit CHR '' ''))
       (Seq (Group 1 (Seq (Plus Digit) (Opt (Seq (Str ''.'') (Plus Digit)))))
         (Seq (Str '' ms'') (Seq (Plus (Lit CHR '' '')) (Seq (Star Dot)
           (Seq (Str ''ms'') (Seq (Plus (Lit CHR '' '')) (Seq (Group 2 (Plus Digit)) Eol)))))))))"
  by (simp add: runtime_pattern_def)

lemma lang_Seq_right: "w \<in> lang (Seq r1 r2) \<Longrightarrow> (\<And>v. v \<in> lang r2 \<Longrightarrow> x \<in> set v) \<Longrightarrow> x \<in> set w"
  by auto

lemma lang_Seq_left: "w \<in> lang (Seq r1 r2) \<Longrightarrow> (\<And>v. v \<in> lang r1 \<Longrightarrow> x \<in> set v) \<Longrightarrow> x \<in> set w"
  by auto

lemma lang_runtime_m: "w \<in> lang runtime_pattern \<Longrightarrow> CHR ''m'' \<in> set w"
  unfolding runtime_pattern_alt
  apply (erule lang_Seq_right)
  apply (erule lang_Seq_right)
  apply (erule lang_Seq_right)
  apply (erule lang_Seq_right)
  apply (erule lang_Seq_left)
  apply simp
  done

lemma runtime_no_m:
  assumes "CHR ''m'' \<notin> set line"
  shows "match_runtime line = Inr None"
proof -
  have "paths runtime_pattern (0, line, Map.empty) = []"
  proof (rule no_match_if_not_lang)
    fix w s' assume "w \<in> lang runtime_pattern"
    from lang_runtime_m[OF this] have "CHR ''m'' \<in> set (w @ s')" by simp
    with assms show "line \<noteq> w @ s'" by blast
  qed
  then have "re_match runtime_pattern line = None" by (simp add: re_match_def)
  then show ?thesis by (simp add: match_runtime_def)
qed

lemma digits_no_m: "list_all is_digit B \<Longrightarrow> CHR ''m'' \<notin> set B"
proof -
  have "\<not> is_digit CHR ''m''" by (simp add: is_digit_def)
  moreover assume "list_all is_digit B"
  ultimately show ?thesis unfolding list_all_iff by blast
qed

text \<open>
  Claim C3 says that no line is matched by both matchers. The header pattern has no
  anchor at its end, so a header followed by the text of a runtime line is matched by
  both.
\<close>

theorem header_and_runtime_overlap_counterexample:
  "match_block_thread_size ''# OPEN3D_PARFOR_BLOCK: 1, OPEN3D_PARFOR_THREAD: 2 took 12.0 ms of 30 ms 4'' =
     Inr (Some (1, 2)) \<and>
   match_runtime ''# OPEN3D_PARFOR_BLOCK: 1, OPEN3D_PARFOR_THREAD: 2 took 12.0 ms of 30 ms 4'' =
     Inr (Some 3)"
  by code_simp

text \<open>
  Claim C3, amended. A line that is exactly a header (the prefix, digits, the middle part,
  digits, and nothing after them) is matched by the header matcher and not by the runtime
  matcher: the header matcher returns the pair of its two numbers (or, when one of them
  has more than 4300 digits, raises the ValueError of \<open>int\<close> for the first that is too
  long) and the runtime matcher returns None. On a line that both matchers match the
  parser takes the header branch.
\<close>

theorem exact_header_line_not_runtime:
  "(B \<noteq> [] \<and> list_all is_digit B \<and> T \<noteq> [] \<and> list_all is_digit T \<longrightarrow>
      match_block_thread_size (''# OPEN3D_PARFOR_BLOCK: '' @ B @ '', OPEN3D_PARFOR_THREAD: '' @ T) =
        (if 4300 < length B then Inl (TooManyDigits (length B))
         else if 4300 < length T then Inl (TooManyDigits (length T))
         else Inr (Some (int (dec B), int (dec T)))) \<and>
      match_runtime (''# OPEN3D_PARFOR_BLOCK: '' @ B @ '', OPEN3D_PARFOR_THREAD: '' @ T) = Inr None) \<and>
   (match_block_thread_size l = Inr (Some bt) \<and> match_runtime l = Inr x \<longrightarrow>
      step gm (cur, rts, res) l = Inr (Some bt, [], save gm cur rts res))"
proof (intro conjI impI; (elim conjE)?)
  assume h: "B \<noteq> []" "list_all is_digit B" "T \<noteq> []" "list_all is_digit T"
  have "match_block_thread_size (hdr_prefix @ B @ hdr_middle @ T @ []) =
      (if 4300 < length B then Inl (TooManyDigits (length B))
       else if 4300 < length T then Inl (TooManyDigits (length T))
       else Inr (Some (int (dec B), int (dec T))))"
    by (rule header_match_form[OF h]) simp
  then show "match_block_thread_size
      (''# OPEN3D_PARFOR_BLOCK: '' @ B @ '', OPEN3D_PARFOR_THREAD: '' @ T) =
      (if 4300 < length B then Inl (TooManyDigits (length B))
       else if 4300 < length T then Inl (TooManyDigits (length T))
       else Inr (Some (int (dec B), int (dec T))))"
    by (simp only: hdr_prefix_def hdr_middle_def append_Nil2)
next
  assume h: "B \<noteq> []" "list_all is_digit B" "T \<noteq> []" "list_all is_digit T"
  show "match_runtime (''# OPEN3D_PARFOR_BLOCK: '' @ B @ '', OPEN3D_PARFOR_THREAD: '' @ T) = Inr None"
  proof (rule runtime_no_m)
    have "CHR ''m'' \<notin> set ''# OPEN3D_PARFOR_BLOCK: ''" "CHR ''m'' \<notin> set '', OPEN3D_PARFOR_THREAD: ''"
      by simp_all
    with digits_no_m[OF h(2)] digits_no_m[OF h(4)]
    show "CHR ''m'' \<notin> set (''# OPEN3D_PARFOR_BLOCK: '' @ B @ '', OPEN3D_PARFOR_THREAD: '' @ T)"
      by (simp only: set_append Un_iff) blast
  qed
next
  assume "match_block_thread_size l = Inr (Some bt)" "match_runtime l = Inr x"
  then show "step gm (cur, rts, res) l = Inr (Some bt, [], save gm cur rts res)"
    by (simp add: step_def)
qed

theorem exact_header_line_not_runtime_witness:
  "match_block_thread_size ''# OPEN3D_PARFOR_BLOCK: 16, OPEN3D_PARFOR_THREAD: 256'' =
     Inr (Some (16, 256)) \<and>
   match_runtime ''# OPEN3D_PARFOR_BLOCK: 16, OPEN3D_PARFOR_THREAD: 256'' = Inr None"
proof -
  have d: "dec ''16'' = 16" "dec ''256'' = 256" by code_simp+
  have h: "''16'' \<noteq> [] \<and> list_all is_digit ''16'' \<and> ''256'' \<noteq> [] \<and> list_all is_digit ''256''"
    by (simp add: is_digit_def)
  from exact_header_line_not_runtime[of "''16''" "''256''", THEN conjunct1, rule_format, OF h] d
  show ?thesis by simp
qed


section \<open>Properties of the prefix of a file name\<close>

lemma cpu_pattern_alt:
  "cpu_pattern = Seq Bol (Seq (Group 1 (Seq (Star Dot) (Str ''_CPU''))) (Seq (Star Dot) Eol))"
  by (simp add: cpu_pattern_def)

lemma lang_cpu: "w \<in> lang cpu_pattern \<Longrightarrow> sublist ''_CPU'' w"
proof -
  assume "w \<in> lang cpu_pattern"
  then obtain d r where "w = (d @ ''_CPU'') @ r"
    unfolding cpu_pattern_alt by (simp only: lang.simps) blast
  then show ?thesis by (simp add: sublist_def) blast
qed

lemma cpu_absent:
  assumes "\<not> sublist ''_CPU'' f"
  shows "extract_cpu_prefix f = Inl (InvalidLogFile f)"
proof -
  have "paths cpu_pattern (0, f, Map.empty) = []"
  proof (rule no_match_if_not_lang)
    fix w s' assume "w \<in> lang cpu_pattern"
    from lang_cpu[OF this] obtain ps ss where "w = ps @ ''_CPU'' @ ss"
      unfolding sublist_def by blast
    then have "w @ s' = ps @ ''_CPU'' @ (ss @ s')" by simp
    then have "sublist ''_CPU'' (w @ s')" unfolding sublist_def by blast
    with assms show "f \<noteq> w @ s'" by blast
  qed
  then have "re_match cpu_pattern f = None" by (simp add: re_match_def)
  then show ?thesis by (simp add: extract_cpu_prefix_def)
qed

lemma cpu_present:
  assumes nl: "newline \<notin> set (u @ ''_CPU'' @ v)"
    and last: "\<not> sublist ''_CPU'' (''CPU'' @ v)"
  shows "extract_cpu_prefix (u @ ''_CPU'' @ v) = Inr (u @ ''_CPU'')"
proof -
  let ?f = "u @ ''_CPU'' @ v"
  let ?c = "Map.empty :: caps"
  let ?c1 = "?c(1 \<mapsto> u @ ''_CPU'')"
  from nl have du: "\<forall>x \<in> set u. cmatch Dot x" and dv: "\<forall>x \<in> set v. cmatch Dot x" by auto
  from star_split[OF du, of 0 "''_CPU'' @ v" ?c] obtain xs ys where
    e: "star Dot (0, ?f, ?c) = xs @ (0 + length u, ''_CPU'' @ v, ?c) # ys" and
    l: "\<forall>z \<in> set xs. \<exists>w. w \<noteq> [] \<and> ''_CPU'' @ v = w @ fst (snd z) \<and>
          fst z = 0 + length u + length w \<and> snd (snd z) = ?c"
    by blast
  have skip: "\<forall>z \<in> set xs. paths (Str ''_CPU'') z = []"
  proof
    fix z assume "z \<in> set xs"
    with l obtain w where w: "w \<noteq> []" "''_CPU'' @ v = w @ fst (snd z)" by blast
    obtain n' s' c' where z: "z = (n', s', c')" by (cases z) auto
    have "take (length ''_CPU'') s' \<noteq> ''_CPU''"
    proof
      assume "take (length ''_CPU'') s' = ''_CPU''"
      then obtain t where "s' = ''_CPU'' @ t" by (metis append_take_drop_id)
      with w z have eq: "''_CPU'' @ v = w @ ''_CPU'' @ t" by simp
      from w(1) obtain a w' where "w = a # w'" by (cases w) auto
      with eq have "''CPU'' @ v = w' @ ''_CPU'' @ t" by simp
      then have "sublist ''_CPU'' (''CPU'' @ v)" unfolding sublist_def by blast
      with last show False by simp
    qed
    with z show "paths (Str ''_CPU'') z = []" by (simp only: paths.simps if_False)
  qed
  have "starts (Star Dot) (0 + length u + length ''_CPU'', v @ [], ?c1)
      (0 + length u + length ''_CPU'' + length v, [], ?c1)"
    using dv by (intro starts_Star) simp_all
  then have s3: "starts (Seq (Star Dot) Eol) (0 + length u + length ''_CPU'', v, ?c1)
      (0 + length u + length ''_CPU'' + length v, [], ?c1)"
    using starts_Eol by (auto intro: starts_Seq)
  have "starts (Str ''_CPU'') (0 + length u, ''_CPU'' @ v, ?c) (0 + length u + length ''_CPU'', v, ?c)"
    by (rule starts_Str)
  with e skip have "starts (Seq (Star Dot) (Str ''_CPU'')) (0, ?f, ?c)
      (0 + length u + length ''_CPU'', v, ?c)"
    by (intro starts_Seq_skip[where xs = xs and ys = ys]) simp_all
  from starts_Group[OF this, of 1]
  have s2: "starts (Group 1 (Seq (Star Dot) (Str ''_CPU''))) (0, ?f, ?c)
      (0 + length u + length ''_CPU'', v, ?c1)"
    by simp
  have "starts cpu_pattern (0, ?f, ?c) (0 + length u + length ''_CPU'' + length v, [], ?c1)"
    unfolding cpu_pattern_alt
    by (intro starts_Seq[OF starts_Bol] starts_Seq[OF s2] s3)
  then have "re_match cpu_pattern ?f = Some ?c1"
    by (auto simp: starts_def re_match_def)
  then show ?thesis by (simp add: extract_cpu_prefix_def)
qed

lemma last_occurrence:
  "f = u @ ''_CPU'' @ v \<Longrightarrow>
   \<exists>u' v'. f = u' @ ''_CPU'' @ v' \<and> \<not> sublist ''_CPU'' (''CPU'' @ v')"
proof (induction "length v" arbitrary: u v rule: less_induct)
  case less
  show ?case
  proof (cases "sublist ''_CPU'' (''CPU'' @ v)")
    case False
    with less.prems show ?thesis by blast
  next
    case True
    then obtain a b where ab: "''CPU'' @ v = a @ ''_CPU'' @ b" unfolding sublist_def by blast
    then have "length (''CPU'' @ v) = length (a @ ''_CPU'' @ b)" by simp
    then have lt: "length b < length v" by simp
    from less.prems ab have "f = (u @ ''_'' @ a) @ ''_CPU'' @ b" by simp
    from less.hyps[OF lt this] show ?thesis .
  qed
qed

text \<open>
  Claim C8, amended. For a file name without a newline character: when the name contains
  \<open>_CPU\<close>, \<open>extract_cpu_prefix\<close> returns the prefix of the name that ends with the
  last \<open>_CPU\<close> in it; when the name does not contain \<open>_CPU\<close> it raises the
  ValueError for an invalid log file (this half holds for every name); and it raises if
  and only if \<open>_CPU\<close> is absent.
\<close>

theorem cpu_prefix_extracted:
  "(newline \<notin> set (u @ ''_CPU'' @ v) \<and> \<not> sublist ''_CPU'' (''CPU'' @ v) \<longrightarrow>
      extract_cpu_prefix (u @ ''_CPU'' @ v) = Inr (u @ ''_CPU'')) \<and>
   (\<not> sublist ''_CPU'' f \<longrightarrow> extract_cpu_prefix f = Inl (InvalidLogFile f)) \<and>
   (newline \<notin> set f \<longrightarrow> (\<exists>e. extract_cpu_prefix f = Inl e) = (\<not> sublist ''_CPU'' f))"
proof (intro conjI impI; (elim conjE)?)
  assume "newline \<notin> set (u @ ''_CPU'' @ v)" "\<not> sublist ''_CPU'' (''CPU'' @ v)"
  then show "extract_cpu_prefix (u @ ''_CPU'' @ v) = Inr (u @ ''_CPU'')" by (rule cpu_present)
next
  assume "\<not> sublist ''_CPU'' f"
  then show "extract_cpu_prefix f = Inl (InvalidLogFile f)" by (rule cpu_absent)
next
  assume nl: "newline \<notin> set f"
  show "(\<exists>e. extract_cpu_prefix f = Inl e) = (\<not> sublist ''_CPU'' f)"
  proof
    assume r: "\<exists>e. extract_cpu_prefix f = Inl e"
    show "\<not> sublist ''_CPU'' f"
    proof
      assume "sublist ''_CPU'' f"
      then obtain u v where "f = u @ ''_CPU'' @ v" unfolding sublist_def by blast
      from last_occurrence[OF this] obtain u' v' where
        f: "f = u' @ ''_CPU'' @ v'" and m: "\<not> sublist ''_CPU'' (''CPU'' @ v')" by blast
      from nl f have "newline \<notin> set (u' @ ''_CPU'' @ v')" by simp
      from cpu_present[OF this m] f r show False by simp
    qed
  next
    assume "\<not> sublist ''_CPU'' f"
    from cpu_absent[OF this] show "\<exists>e. extract_cpu_prefix f = Inl e" by blast
  qed
qed

theorem cpu_prefix_extracted_witness:
  "extract_cpu_prefix ''benchmark_Intel_CPU_with_dummy.log'' = Inr ''benchmark_Intel_CPU'' \<and>
   extract_cpu_prefix ''benchmark_no_marker.log'' = Inl (InvalidLogFile ''benchmark_no_marker.log'')"
proof -
  have a: "newline \<notin> set (''benchmark_Intel'' @ ''_CPU'' @ ''_with_dummy.log'')"
    by (simp add: newline_def)
  have b: "\<not> sublist ''_CPU'' (''CPU'' @ ''_with_dummy.log'')"
    by (simp add: sublist_Cons_right)
  have c: "\<not> sublist ''_CPU'' ''benchmark_no_marker.log''"
    by (simp add: sublist_Cons_right)
  from cpu_prefix_extracted[of "''benchmark_Intel''" "''_with_dummy.log''" "''benchmark_no_marker.log''"]
    a b c show ?thesis by simp
qed

text \<open>
  Claim C8 as stated, for every file name, fails: \<open>.\<close> does not match a newline, so
  a name with a newline before \<open>_CPU\<close> contains \<open>_CPU\<close> and still raises.
\<close>

theorem cpu_prefix_newline_counterexample:
  "CHR ''x'' # CHR 0x0A # ''_CPU'' = [CHR ''x'', CHR 0x0A] @ ''_CPU'' @ [] \<and>
   extract_cpu_prefix (CHR ''x'' # CHR 0x0A # ''_CPU'') =
     Inl (InvalidLogFile (CHR ''x'' # CHR 0x0A # ''_CPU''))"
  by code_simp


section \<open>Properties of the runtime matcher\<close>






















end
